theory Spec2Isabelle
  imports Main "HOL-Library.AList" "HOL-Library.Sublist"
begin

section \<open>Python values held by configuration sources\<close>

text \<open>
  A configuration source is what \<^verbatim>\<open>yaml.load\<close> returns or what the client puts into the
  overlay: \<^verbatim>\<open>None\<close>, booleans, integers, strings, lists and dicts, nested. A view is
  subscripted by a string or by an integer, and these are the dict keys of the model
  too. The model follows Python 3. A dict is an association list in insertion order; a
  lookup takes the first pair of a key, and item assignment (\<open>AList.update\<close>) replaces
  the pair of a key in place or appends a new pair, as a Python dict does. Strings are
  byte strings; a byte above \<open>0x7F\<close> stands for a part of a printable character.
\<close>

datatype key = KStr string | KInt int

datatype pyval =
    VNone
  | VBool bool
  | VInt int
  | VStr string
  | VList "pyval list"
  | VDict "(key \<times> pyval) list"

datatype pytype = TObject | TNoneType | TBool | TInt | TStr | TList | TDict

fun type_of :: "pyval \<Rightarrow> pytype" where
  "type_of VNone = TNoneType"
| "type_of (VBool _) = TBool"
| "type_of (VInt _) = TInt"
| "type_of (VStr _) = TStr"
| "type_of (VList _) = TList"
| "type_of (VDict _) = TDict"

text \<open>\<^verbatim>\<open>isinstance(value, typ)\<close>: \<^verbatim>\<open>bool\<close> is a subclass of \<^verbatim>\<open>int\<close>, and every class
  is a subclass of \<^verbatim>\<open>object\<close>.\<close>

fun isinstance :: "pyval \<Rightarrow> pytype \<Rightarrow> bool" where
  "isinstance v TObject = True"
| "isinstance (VBool _) TInt = True"
| "isinstance v t = (type_of v = t)"

fun type_name :: "pytype \<Rightarrow> string" where
  "type_name TObject = ''object''"
| "type_name TNoneType = ''NoneType''"
| "type_name TBool = ''bool''"
| "type_name TInt = ''int''"
| "type_name TStr = ''str''"
| "type_name TList = ''list''"
| "type_name TDict = ''dict''"

text \<open>\<^verbatim>\<open>STRING(typ)\<close> and \<^verbatim>\<open>'{0}'.format(typ)\<close> of a class: \<^verbatim>\<open><class 'int'>\<close>.\<close>

definition type_str :: "pytype \<Rightarrow> string" where
  "type_str t = ''<class '' @ [CHR 0x27] @ type_name t @ [CHR 0x27] @ ''>''"

subsection \<open>\<^verbatim>\<open>repr\<close> and \<^verbatim>\<open>str\<close>\<close>

definition digit_char :: "nat \<Rightarrow> char" where
  "digit_char n = ''0123456789abcdef'' ! n"

fun digits :: "nat \<Rightarrow> string" where
  "digits n = (if n < 10 then [digit_char n] else digits (n div 10) @ [digit_char (n mod 10)])"

declare digits.simps [simp del]

definition repr_int :: "int \<Rightarrow> string" where
  "repr_int i = (if i < 0 then ''-'' @ digits (nat (- i)) else digits (nat i))"

text \<open>\<^verbatim>\<open>repr\<close> of a string: single quotes, unless the string has a single quote and no
  double quote; the quote and the backslash are escaped, tab, newline and carriage
  return are written \<^verbatim>\<open>\t\<close>, \<^verbatim>\<open>\n\<close>, \<^verbatim>\<open>\r\<close>, and the other control characters in hexadecimal.\<close>

definition repr_quote :: "string \<Rightarrow> char" where
  "repr_quote s = (if CHR 0x27 \<in> set s \<and> CHR 0x22 \<notin> set s then CHR 0x22 else CHR 0x27)"

definition repr_char :: "char \<Rightarrow> char \<Rightarrow> string" where
  "repr_char quote ch =
     (if ch = quote \<or> ch = CHR 0x5C then [CHR 0x5C, ch]
      else if ch = CHR 0x09 then [CHR 0x5C, CHR ''t'']
      else if ch = CHR 0x0A then [CHR 0x5C, CHR ''n'']
      else if ch = CHR 0x0D then [CHR 0x5C, CHR ''r'']
      else if of_char ch < (32::nat) \<or> ch = CHR 0x7F
        then [CHR 0x5C, CHR ''x'', digit_char (of_char ch div 16), digit_char (of_char ch mod 16)]
      else [ch])"

definition repr_str :: "string \<Rightarrow> string" where
  "repr_str s = (let quote = repr_quote s in [quote] @ concat (map (repr_char quote) s) @ [quote])"

fun repr_key :: "key \<Rightarrow> string" where
  "repr_key (KStr s) = repr_str s"
| "repr_key (KInt i) = repr_int i"

text \<open>\<^verbatim>\<open>sep.join(parts)\<close>.\<close>

fun join :: "string \<Rightarrow> string list \<Rightarrow> string" where
  "join sep [] = []"
| "join sep [p] = p"
| "join sep (p # q # ps) = p @ sep @ join sep (q # ps)"

fun repr_item :: "key \<times> string \<Rightarrow> string" where
  "repr_item (k, r) = repr_key k @ '': '' @ r"

primrec repr :: "pyval \<Rightarrow> string" where
  "repr VNone = ''None''"
| "repr (VBool b) = (if b then ''True'' else ''False'')"
| "repr (VInt i) = repr_int i"
| "repr (VStr s) = repr_str s"
| "repr (VList xs) = ''['' @ join '', '' (map repr xs) @ '']''"
| "repr (VDict kvs) = ''{'' @ join '', '' (map repr_item (map (map_prod id repr) kvs)) @ ''}''"

text \<open>\<^verbatim>\<open>STRING(value)\<close>, that is \<^verbatim>\<open>str(value)\<close>: a string is itself.\<close>

fun STRING :: "pyval \<Rightarrow> string" where
  "STRING (VStr s) = s"
| "STRING v = repr v"

fun key_value :: "key \<Rightarrow> pyval" where
  "key_value (KStr s) = VStr s"
| "key_value (KInt i) = VInt i"

section \<open>Exceptions\<close>

text \<open>
  The exceptions of the module carry their message. \<open>ConfigReadError\<close> also keeps the
  file name and the reason. \<open>ValueError\<close>, \<open>IndexError\<close>, \<open>KeyError\<close>, \<open>TypeError\<close> are
  the built-in exceptions; \<open>Uncaught\<close> is any other exception that a file read raises.
\<close>

datatype exc =
    IOError string
  | YAMLError string
  | UnicodeDecodeError string
  | OtherException string


datatype error =
    NotFoundError string
  | ConfigTypeError string
  | ConfigValueError string
  | ConfigReadError string "exc option" string
  | ValueError
  | IndexError
  | KeyError
  | TypeError
  | Uncaught exc


text \<open>\<^verbatim>\<open>except ValueError\<close> also catches \<open>ConfigValueError\<close>, its subclass.\<close>

fun is_ValueError :: "error \<Rightarrow> bool" where
  "is_ValueError ValueError = True"
| "is_ValueError (ConfigValueError _) = True"
| "is_ValueError _ = False"

section \<open>Subscripting\<close>

text \<open>A Python index: a negative one counts from the end.\<close>

definition py_index :: "int \<Rightarrow> nat \<Rightarrow> nat option" where
  "py_index i n =
     (let j = (if i < 0 then i + int n else i)
      in if 0 \<le> j \<and> j < int n then Some (nat j) else None)"

text \<open>\<^verbatim>\<open>collection[key]\<close>.\<close>

fun py_getitem :: "pyval \<Rightarrow> key \<Rightarrow> error + pyval" where
  "py_getitem (VDict kvs) k = (case map_of kvs k of None \<Rightarrow> Inl KeyError | Some v \<Rightarrow> Inr v)"
| "py_getitem (VList xs) (KInt i) =
     (case py_index i (length xs) of None \<Rightarrow> Inl IndexError | Some j \<Rightarrow> Inr (xs ! j))"
| "py_getitem (VList xs) (KStr _) = Inl TypeError"
| "py_getitem (VStr s) (KInt i) =
     (case py_index i (length s) of None \<Rightarrow> Inl IndexError | Some j \<Rightarrow> Inr (VStr [s ! j]))"
| "py_getitem (VStr s) (KStr _) = Inl TypeError"
| "py_getitem VNone k = Inl TypeError"
| "py_getitem (VBool _) k = Inl TypeError"
| "py_getitem (VInt _) k = Inl TypeError"

section \<open>Equality and membership of values\<close>

text \<open>\<^verbatim>\<open>a == b\<close>: \<^verbatim>\<open>True == 1\<close> and \<^verbatim>\<open>False == 0\<close>; lists are equal item by item, dicts
  when they have as many keys and equal values under each key.\<close>

fun py_eq :: "pyval \<Rightarrow> pyval \<Rightarrow> bool" where
  "py_eq VNone VNone = True"
| "py_eq (VBool a) (VBool b) = (a = b)"
| "py_eq (VBool a) (VInt j) = ((if a then 1 else 0) = j)"
| "py_eq (VInt i) (VBool b) = (i = (if b then 1 else 0))"
| "py_eq (VInt i) (VInt j) = (i = j)"
| "py_eq (VStr s) (VStr t) = (s = t)"
| "py_eq (VList xs) (VList ys) = list_all2 py_eq xs ys"
| "py_eq (VDict a) (VDict b) =
     (length a = length b
      \<and> (\<forall>(k, v)\<in>set a. \<exists>(k', w)\<in>set b. k' = k \<and> py_eq v w))"
| "py_eq _ _ = False"

text \<open>\<^verbatim>\<open>x in container\<close>: an item of a list, a key of a dict (a list or a dict is not
  hashable), a substring of a string.\<close>

fun py_in :: "pyval \<Rightarrow> pyval \<Rightarrow> error + bool" where
  "py_in x (VList xs) = Inr (\<exists>y\<in>set xs. py_eq y x)"
| "py_in (VList _) (VDict kvs) = Inl TypeError"
| "py_in (VDict _) (VDict kvs) = Inl TypeError"
| "py_in x (VDict kvs) = Inr (\<exists>k\<in>set (map fst kvs). py_eq (key_value k) x)"
| "py_in (VStr t) (VStr s) = Inr (sublist t s)"
| "py_in x (VStr s) = Inl TypeError"
| "py_in x VNone = Inl TypeError"
| "py_in x (VBool _) = Inl TypeError"
| "py_in x (VInt _) = Inl TypeError"

text \<open>\<^verbatim>\<open>collection[key] = value\<close>: the collection after the assignment.\<close>

fun py_setitem :: "pyval \<Rightarrow> key \<Rightarrow> pyval \<Rightarrow> error + pyval" where
  "py_setitem (VDict kvs) k v = Inr (VDict (AList.update k v kvs))"
| "py_setitem (VList xs) (KInt i) v =
     (case py_index i (length xs) of None \<Rightarrow> Inl IndexError | Some j \<Rightarrow> Inr (VList (xs[j := v])))"
| "py_setitem (VList xs) (KStr _) v = Inl TypeError"
| "py_setitem (VStr _) k v = Inl TypeError"
| "py_setitem VNone k v = Inl TypeError"
| "py_setitem (VBool _) k v = Inl TypeError"
| "py_setitem (VInt _) k v = Inl TypeError"

section \<open>Views\<close>

text \<open>
  A \<open>RootView\<close> object holds the overlay and the sources; a \<open>Subview\<close> holds its parent
  and its key, so a view is a path from the root, and the state of the root is passed
  to every operation. \<open>Configuration\<close> extends the record.
\<close>

record config =
  overlay :: pyval
  sources :: "pyval list"

datatype view = RootView | Subview view key

fun name :: "view \<Rightarrow> string" where
  "name RootView = ''root''"
| "name (Subview parent k) = name parent @ ''['' @ repr_key k @ '']''"

text \<open>
  A generator, run to its end: the values it yields, then either its return or the
  exception it raises. The consumer that stops early never sees what comes later.
\<close>

datatype 'a gen = Done | Yield 'a "'a gen" | Raise error

fun iter :: "'a list \<Rightarrow> 'a gen" where
  "iter [] = Done"
| "iter (x # xs) = Yield x (iter xs)"

fun iter_first :: "'a gen \<Rightarrow> error + 'a" where
  "iter_first Done = Inl ValueError"
| "iter_first (Yield x _) = Inr x"
| "iter_first (Raise e) = Inl e"

text \<open>The loop of \<open>Subview.get_all\<close> over the candidates of the parent.\<close>

fun Subview_loop :: "string \<Rightarrow> key \<Rightarrow> pyval gen \<Rightarrow> pyval gen" where
  "Subview_loop parent_name k Done = Done"
| "Subview_loop parent_name k (Raise e) = Raise e"
| "Subview_loop parent_name k (Yield collection rest) =
     (case py_getitem collection k of
        Inr v \<Rightarrow> Yield v (Subview_loop parent_name k rest)
      | Inl IndexError \<Rightarrow> Subview_loop parent_name k rest
      | Inl KeyError \<Rightarrow> Subview_loop parent_name k rest
      | Inl TypeError \<Rightarrow>
          Raise (ConfigTypeError (parent_name @ '' must be a collection, not ''
                                  @ type_str (type_of collection)))
      | Inl e \<Rightarrow> Raise e)"

fun get_all :: "'a config_scheme \<Rightarrow> view \<Rightarrow> pyval gen" where
  "get_all st RootView = iter ([overlay st] @ sources st)"
| "get_all st (Subview parent k) = Subview_loop (name parent) k (get_all st parent)"

text \<open>The argument of \<open>get\<close>: \<^verbatim>\<open>None\<close>, a type, or a callable that takes the view and the
  value.\<close>

datatype conversion = NoTyp | IsType pytype | Callable "view \<Rightarrow> pyval \<Rightarrow> error + pyval"

definition get :: "'a config_scheme \<Rightarrow> view \<Rightarrow> conversion \<Rightarrow> error + pyval" where
  "get st v typ =
     (case iter_first (get_all st v) of
        Inl e \<Rightarrow>
          (if is_ValueError e then Inl (NotFoundError (name v @ '' not found'')) else Inl e)
      | Inr val \<Rightarrow>
          (case typ of
             IsType t \<Rightarrow>
               (if \<not> isinstance val t
                then Inl (ConfigTypeError (name v @ '' must by of type '' @ type_str t
                                           @ '', not '' @ type_str (type_of val)))
                else Inr val)
           | Callable f \<Rightarrow> f v val
           | NoTyp \<Rightarrow> Inr val))"

text \<open>\<open>keys\<close>: the loop over the candidates, with the set of keys collected so far.\<close>

fun keys_loop :: "string \<Rightarrow> key set \<Rightarrow> pyval gen \<Rightarrow> error + key set" where
  "keys_loop nm ks Done = Inr ks"
| "keys_loop nm ks (Raise e) = Inl e"
| "keys_loop nm ks (Yield dic rest) =
     (case dic of
        VDict kvs \<Rightarrow> keys_loop nm (ks \<union> set (map fst kvs)) rest
      | _ \<Rightarrow> Inl (ConfigTypeError (nm @ '' must be a dict, not '' @ type_str (type_of dic))))"

definition keys :: "'a config_scheme \<Rightarrow> view \<Rightarrow> error + key set" where
  "keys st v = keys_loop (name v) {} (get_all st v)"

section \<open>The overlay\<close>

text \<open>
  The \<open>overlay\<close> property of a subview takes the overlay of its parent, puts an empty
  dict under its key when the key is not in it, and returns the object under the key.
  The caller then assigns an item of the returned object. The object is shared with the
  parent's overlay, so the assignment is seen from the root. Values are trees here: the
  effect of the caller on the returned object is a function \<open>f\<close> from the object to its
  new contents and the exception raised, if any, and \<open>with_overlay v f\<close> gives the root
  overlay after \<open>f\<close> has run on the overlay of \<open>v\<close>.
\<close>

definition put_back :: "pyval \<Rightarrow> key \<Rightarrow> pyval \<Rightarrow> pyval" where
  "put_back parent_overlay k node =
     (case py_setitem parent_overlay k node of Inr p \<Rightarrow> p | Inl _ \<Rightarrow> parent_overlay)"

definition Subview_overlay ::
  "key \<Rightarrow> (pyval \<Rightarrow> pyval \<times> error option) \<Rightarrow> pyval \<Rightarrow> pyval \<times> error option" where
  "Subview_overlay k f parent_overlay =
     (case py_in (key_value k) parent_overlay of
        Inl e \<Rightarrow> (parent_overlay, Some e)
      | Inr present \<Rightarrow>
          (case (if \<not> present then py_setitem parent_overlay k (VDict []) else Inr parent_overlay) of
             Inl e \<Rightarrow> (parent_overlay, Some e)
           | Inr po \<Rightarrow>
               (case py_getitem po k of
                  Inl e \<Rightarrow> (po, Some e)
                | Inr node \<Rightarrow> (case f node of (node', r) \<Rightarrow> (put_back po k node', r)))))"

fun with_overlay ::
  "view \<Rightarrow> (pyval \<Rightarrow> pyval \<times> error option) \<Rightarrow> pyval \<Rightarrow> pyval \<times> error option" where
  "with_overlay RootView f root_overlay = f root_overlay"
| "with_overlay (Subview parent k) f root_overlay =
     with_overlay parent (Subview_overlay k f) root_overlay"

definition assign :: "key \<Rightarrow> pyval \<Rightarrow> pyval \<Rightarrow> pyval \<times> error option" where
  "assign k v node = (case py_setitem node k v of Inl e \<Rightarrow> (node, Some e) | Inr n \<Rightarrow> (n, None))"

text \<open>
  \<open>__setitem__\<close>: \<^verbatim>\<open>self.overlay[key] = value\<close>, an assignment in place in the object that
  the \<open>overlay\<close> property returns. The result is the root overlay afterwards and the
  exception raised, if any. An object of the overlay can also be held by a source: the
  client may assign to the overlay what \<open>get\<close> returned from a source, and a later write
  below it changes the source too. Values as trees cannot say which objects are shared,
  so \<open>setitem\<close> gives the overlay only and says nothing of the sources; a statement
  about the state after a write is made for whatever sources that state has.
\<close>

definition setitem :: "view \<Rightarrow> key \<Rightarrow> pyval \<Rightarrow> pyval \<Rightarrow> pyval \<times> error option" where
  "setitem v k val root_overlay = with_overlay v (assign k val) root_overlay"

section \<open>Validation and conversion helpers\<close>

subsection \<open>Paths\<close>

text \<open>
  \<open>as_filename\<close> calls \<^verbatim>\<open>os.path.expanduser\<close> and \<^verbatim>\<open>os.path.abspath\<close>, here those of
  \<^verbatim>\<open>posixpath\<close>. They read the environment variable \<^verbatim>\<open>HOME\<close>, the password database and
  the working directory, and nothing of the file system.
\<close>

record os_env =
  environ_HOME :: "string option"
  pw_dir_uid :: "string option"
  pw_dir_nam :: "string \<Rightarrow> string option"
  getcwd :: string

definition rstrip_sep :: "string \<Rightarrow> string" where
  "rstrip_sep s = rev (dropWhile (\<lambda>c. c = CHR ''/'') (rev s))"

definition expanduser :: "os_env \<Rightarrow> string \<Rightarrow> string" where
  "expanduser env p =
     (if \<not> prefix ''~'' p then p
      else
        let i = 1 + length (takeWhile (\<lambda>c. c \<noteq> CHR ''/'') (drop 1 p));
            userhome =
              (if i = 1
               then (case environ_HOME env of None \<Rightarrow> pw_dir_uid env | Some h \<Rightarrow> Some h)
               else pw_dir_nam env (take (i - 1) (drop 1 p)))
        in case userhome of
             None \<Rightarrow> p
           | Some home \<Rightarrow>
               (let r = rstrip_sep home @ drop i p in if r = [] then ''/'' else r))"

definition isabs :: "string \<Rightarrow> bool" where
  "isabs p = prefix ''/'' p"

definition path_join :: "string \<Rightarrow> string \<Rightarrow> string" where
  "path_join a b =
     (if prefix ''/'' b then b
      else if a = [] \<or> last a = CHR ''/'' then a @ b
      else a @ ''/'' @ b)"

text \<open>\<^verbatim>\<open>s.split(sep)\<close>.\<close>

fun split :: "char \<Rightarrow> string \<Rightarrow> string list" where
  "split sep [] = [[]]"
| "split sep (c # s) =
     (if c = sep then [] # split sep s
      else (case split sep s of [] \<Rightarrow> [[c]] | p # ps \<Rightarrow> (c # p) # ps))"

fun normpath_loop :: "nat \<Rightarrow> string list \<Rightarrow> string list \<Rightarrow> string list" where
  "normpath_loop initial_slashes [] new_comps = new_comps"
| "normpath_loop initial_slashes (component # comps) new_comps =
     (if component = [] \<or> component = ''.'' then normpath_loop initial_slashes comps new_comps
      else if component \<noteq> ''..'' \<or> (initial_slashes = 0 \<and> new_comps = [])
              \<or> (new_comps \<noteq> [] \<and> last new_comps = ''..'')
        then normpath_loop initial_slashes comps (new_comps @ [component])
      else if new_comps \<noteq> [] then normpath_loop initial_slashes comps (butlast new_comps)
      else normpath_loop initial_slashes comps new_comps)"

definition normpath :: "string \<Rightarrow> string" where
  "normpath p =
     (if p = [] then ''.''
      else
        let initial_slashes =
              (if prefix ''/'' p
               then (if prefix ''//'' p \<and> \<not> prefix ''///'' p then 2 else 1)
               else 0);
            comps = normpath_loop initial_slashes (split CHR ''/'' p) [];
            q = replicate initial_slashes CHR ''/'' @ join ''/'' comps
        in if q = [] then ''.'' else q)"

definition abspath :: "os_env \<Rightarrow> string \<Rightarrow> string" where
  "abspath env p = normpath (if \<not> isabs p then path_join (getcwd env) p else p)"

definition as_filename :: "os_env \<Rightarrow> view \<Rightarrow> pyval \<Rightarrow> error + pyval" where
  "as_filename env view val = Inr (VStr (abspath env (expanduser env (STRING val))))"

subsection \<open>Choices\<close>

text \<open>\<^verbatim>\<open>list(choices)\<close>: the items of a list, the keys of a dict, the characters of a
  string.\<close>

fun py_list :: "pyval \<Rightarrow> error + pyval list" where
  "py_list (VList xs) = Inr xs"
| "py_list (VDict kvs) = Inr (map (\<lambda>kv. key_value (fst kv)) kvs)"
| "py_list (VStr s) = Inr (map (\<lambda>c. VStr [c]) s)"
| "py_list v = Inl TypeError"

definition as_choice :: "pyval \<Rightarrow> view \<Rightarrow> pyval \<Rightarrow> error + pyval" where
  "as_choice choices view val =
     (case py_in val choices of
        Inl e \<Rightarrow> Inl e
      | Inr isin \<Rightarrow>
          (if \<not> isin
           then (case py_list choices of
                   Inl e \<Rightarrow> Inl e
                 | Inr l \<Rightarrow>
                     Inl (ConfigValueError (name view @ '' must be one of '' @ repr val
                                            @ '', not '' @ repr (VList l))))
           else Inr val))"

section \<open>Configuration\<close>







section \<open>Notions used in the statements\<close>

subsection \<open>What a generator is observed to do\<close>

text \<open>The values a generator yields, in order, and the exception that ends it, if any.\<close>

fun yields :: "'a gen \<Rightarrow> 'a list" where
  "yields Done = []"
| "yields (Yield x g) = x # yields g"
| "yields (Raise e) = []"

fun raised :: "'a gen \<Rightarrow> error option" where
  "raised Done = None"
| "raised (Yield x g) = raised g"
| "raised (Raise e) = Some e"

text \<open>The outcomes of \<^verbatim>\<open>collection[key]\<close> that \<open>Subview.get_all\<close> tells apart: the key
  is missing, the collection cannot be subscripted, or there is an item.\<close>

definition absent :: "pyval \<Rightarrow> key \<Rightarrow> bool" where
  "absent c k = (py_getitem c k = Inl KeyError \<or> py_getitem c k = Inl IndexError)"

definition unsubscriptable :: "pyval \<Rightarrow> key \<Rightarrow> bool" where
  "unsubscriptable c k = (py_getitem c k = Inl TypeError)"

definition item :: "key \<Rightarrow> pyval \<Rightarrow> pyval option" where
  "item k c = (case py_getitem c k of Inr v \<Rightarrow> Some v | Inl _ \<Rightarrow> None)"

fun is_dict :: "pyval \<Rightarrow> bool" where
  "is_dict (VDict _) = True"
| "is_dict _ = False"

fun dict_keys :: "pyval \<Rightarrow> key set" where
  "dict_keys (VDict kvs) = fst ` set kvs"
| "dict_keys _ = {}"

subsection \<open>Paths into the overlay\<close>

text \<open>
  The keys of a view from the root down, the object found by subscripting along a
  path, and the condition under which a write through a view cannot fail: the overlay
  is a dict, and so is every object that it already holds along the path of the view,
  up to the first key that is missing.
\<close>

fun path :: "view \<Rightarrow> key list" where
  "path RootView = []"
| "path (Subview parent k) = path parent @ [k]"

fun lookup :: "pyval \<Rightarrow> key list \<Rightarrow> error + pyval" where
  "lookup c [] = Inr c"
| "lookup c (k # ks) = (case py_getitem c k of Inl e \<Rightarrow> Inl e | Inr c' \<Rightarrow> lookup c' ks)"

fun dict_path :: "key list \<Rightarrow> pyval \<Rightarrow> bool" where
  "dict_path [] c = is_dict c"
| "dict_path (k # ks) (VDict d) = (case map_of d k of None \<Rightarrow> True | Some c \<Rightarrow> dict_path ks c)"
| "dict_path (k # ks) _ = False"

text \<open>The dict under a key, or the empty dict that the \<open>overlay\<close> property creates.\<close>

fun child :: "(key \<times> pyval) list \<Rightarrow> key \<Rightarrow> pyval" where
  "child d k = (case map_of d k of None \<Rightarrow> VDict [] | Some c \<Rightarrow> c)"

fun reach :: "key list \<Rightarrow> pyval \<Rightarrow> pyval" where
  "reach [] c = c"
| "reach (k # ks) (VDict d) = reach ks (child d k)"
| "reach (k # ks) c = VDict []"

fun put :: "key list \<Rightarrow> pyval \<Rightarrow> pyval \<Rightarrow> pyval" where
  "put [] n c = n"
| "put (k # ks) n (VDict d) = VDict (AList.update k (put ks n (child d k)) d)"
| "put (k # ks) n c = c"

subsection \<open>Normalised paths\<close>

text \<open>A component of a normalised absolute path: not empty, not \<open>.\<close> or \<open>..\<close>, and without
  a slash.\<close>

definition proper_component :: "string \<Rightarrow> bool" where
  "proper_component c = (c \<noteq> [] \<and> c \<noteq> ''.'' \<and> c \<noteq> ''..'' \<and> CHR ''/'' \<notin> set c)"

text \<open>The home directory that \<open>expanduser\<close> looks up for the name after the \<open>~\<close>: of the
  current user when the name is empty.\<close>

definition userhome :: "os_env \<Rightarrow> string \<Rightarrow> string option" where
  "userhome env user =
     (if user = [] then (case environ_HOME env of None \<Rightarrow> pw_dir_uid env | Some h \<Rightarrow> Some h)
      else pw_dir_nam env user)"

subsection \<open>The real path of a file name\<close>

text \<open>
  The canonical real path that the specification speaks of, for comparison with
  \<open>as_filename\<close>; it is no part of the source. The symbolic links of the file system
  are a table from the components of a link's absolute path to the components of its
  absolute target. The absolute, normalised path is walked from the root, and a prefix
  that is a link is replaced by its target; the counter bounds the links followed.
\<close>

fun resolve_links ::
  "(string list \<times> string list) list \<Rightarrow> nat \<Rightarrow> string list \<Rightarrow> string list \<Rightarrow> string list" where
  "resolve_links links n seen [] = seen"
| "resolve_links links n seen (c # cs) =
     (case map_of links (seen @ [c]) of
        None \<Rightarrow> resolve_links links n (seen @ [c]) cs
      | Some target \<Rightarrow>
          (case n of 0 \<Rightarrow> seen @ c # cs | Suc m \<Rightarrow> resolve_links links m [] (target @ cs)))"

definition spec_realpath :: "(string list \<times> string list) list \<Rightarrow> os_env \<Rightarrow> string \<Rightarrow> string" where
  "spec_realpath links env s =
     ''/'' @ join ''/'' (resolve_links links 40 []
                          (filter (\<lambda>c. c \<noteq> []) (split CHR ''/'' (abspath env (expanduser env s)))))"

section \<open>Configurations to run the operations on\<close>

definition ex_config :: config where
  "ex_config = \<lparr>overlay = VDict [(KStr ''a'', VInt 1)],
     sources = [VDict [(KStr ''a'', VInt 2)], VDict [(KStr ''b'', VInt 3)],
                VDict [(KStr ''a'', VInt 4), (KStr ''b'', VInt 5)]]\<rparr>"

definition ex_scalar :: config where
  "ex_scalar = \<lparr>overlay = VDict [],
     sources = [VDict [(KStr ''b'', VInt 0)], VDict [(KStr ''a'', VInt 5)],
                VDict [(KStr ''a'', VDict [(KStr ''b'', VInt 1)])]]\<rparr>"




definition ex_env :: os_env where
  "ex_env = \<lparr>environ_HOME = Some ''/home/ann/'', pw_dir_uid = Some ''/home/ann'',
     pw_dir_nam = (\<lambda>u. if u = ''bob'' then Some ''/home/bob'' else None),
     getcwd = ''/srv/app''\<rparr>"

definition ex_choices :: pyval where
  "ex_choices = VDict [(KStr ''yes'', VBool True), (KStr ''no'', VBool False)]"

section \<open>Candidates of a view\<close>

lemma py_getitem_cases:
  "(\<exists>v. py_getitem c k = Inr v) \<or> py_getitem c k = Inl KeyError
     \<or> py_getitem c k = Inl IndexError \<or> py_getitem c k = Inl TypeError"
  by (cases "(c, k)" rule: py_getitem.cases) (auto split: option.splits)

lemma yields_iter: "yields (iter xs) = xs"
  by (induction xs) simp_all

lemma raised_iter: "raised (iter xs) = None"
  by (induction xs) simp_all

lemma yields_Subview_loop:
  "yields (Subview_loop n k g) =
     List.map_filter (item k) (takeWhile (\<lambda>c. \<not> unsubscriptable c k) (yields g))"
proof (induction g)
  case Done
  show ?case by (simp add: map_filter_simps)
next
  case (Yield c g)
  from py_getitem_cases [of c k] show ?case
    using Yield.IH
    by (auto simp: unsubscriptable_def item_def map_filter_simps)
next
  case (Raise e)
  show ?case by (simp add: map_filter_simps)
qed

lemma raised_Subview_loop_ok:
  "\<forall>c\<in>set (yields g). \<not> unsubscriptable c k \<Longrightarrow> raised (Subview_loop n k g) = raised g"
proof (induction g)
  case (Yield c g)
  from py_getitem_cases [of c k] Yield show ?case
    by (auto simp: unsubscriptable_def)
qed simp_all

lemma raised_Subview_loop_bad:
  "yields g = cs @ c # cs' \<Longrightarrow> \<forall>x\<in>set cs. \<not> unsubscriptable x k \<Longrightarrow> unsubscriptable c k \<Longrightarrow>
   raised (Subview_loop n k g) =
     Some (ConfigTypeError (n @ '' must be a collection, not '' @ type_str (type_of c)))"
proof (induction g arbitrary: cs)
  case (Yield x g)
  show ?case
  proof (cases cs)
    case Nil
    with Yield.prems show ?thesis by (simp add: unsubscriptable_def)
  next
    case (Cons y ys)
    with Yield.prems have x: "\<not> unsubscriptable x k" and g: "yields g = ys @ c # cs'"
      and ys: "\<forall>x\<in>set ys. \<not> unsubscriptable x k" by auto
    from Yield.IH [OF g ys Yield.prems(3)] x py_getitem_cases [of x k]
    show ?thesis by (auto simp: unsubscriptable_def)
  qed
qed simp_all


text \<open>
  Claim C1. The candidates of the root are the overlay, then the sources in their order.
  The candidates of a subview are the items under its key of the candidates of its
  parent, in the same order; a candidate of the parent that lacks the key is skipped.
  The enumeration stops at the first candidate of the parent that cannot be
  subscripted; when there is none, every candidate of the parent is looked at and the
  subview ends as its parent does.
\<close>

theorem get_all_priority_order:
  "get_all st RootView = iter (overlay st # sources st)
   \<and> yields (get_all st RootView) = overlay st # sources st
   \<and> raised (get_all st RootView) = None
   \<and> yields (get_all st (Subview parent k)) =
       List.map_filter (item k)
         (takeWhile (\<lambda>c. \<not> unsubscriptable c k) (yields (get_all st parent)))
   \<and> ((\<forall>c\<in>set (yields (get_all st parent)). \<not> unsubscriptable c k) \<longrightarrow>
        yields (get_all st (Subview parent k)) =
          List.map_filter (item k) (yields (get_all st parent))
        \<and> raised (get_all st (Subview parent k)) = raised (get_all st parent))"
proof -
  have root: "get_all st RootView = iter (overlay st # sources st)
      \<and> yields (get_all st RootView) = overlay st # sources st
      \<and> raised (get_all st RootView) = None"
    by (simp add: yields_iter raised_iter)
  have sub: "yields (get_all st (Subview parent k)) =
       List.map_filter (item k)
         (takeWhile (\<lambda>c. \<not> unsubscriptable c k) (yields (get_all st parent)))"
    by (simp add: yields_Subview_loop)
  have ok: "(\<forall>c\<in>set (yields (get_all st parent)). \<not> unsubscriptable c k) \<longrightarrow>
        yields (get_all st (Subview parent k)) =
          List.map_filter (item k) (yields (get_all st parent))
        \<and> raised (get_all st (Subview parent k)) = raised (get_all st parent)"
  proof
    assume h: "\<forall>c\<in>set (yields (get_all st parent)). \<not> unsubscriptable c k"
    then have tw: "takeWhile (\<lambda>c. \<not> unsubscriptable c k) (yields (get_all st parent))
        = yields (get_all st parent)"
      by (simp add: takeWhile_eq_all_conv)
    from h show "yields (get_all st (Subview parent k)) =
          List.map_filter (item k) (yields (get_all st parent))
        \<and> raised (get_all st (Subview parent k)) = raised (get_all st parent)"
      by (simp add: yields_Subview_loop raised_Subview_loop_ok tw)
  qed
  from root sub ok show ?thesis by blast
qed

theorem get_all_priority_order_witness:
  "yields (get_all ex_config (Subview RootView (KStr ''a''))) = [VInt 1, VInt 2, VInt 4]
   \<and> raised (get_all ex_config (Subview RootView (KStr ''a''))) = None"
proof -
  have h: "\<forall>c\<in>set (yields (get_all ex_config RootView)). \<not> unsubscriptable c (KStr ''a'')"
    by (simp add: ex_config_def unsubscriptable_def)
  have y: "yields (get_all ex_config RootView) = overlay ex_config # sources ex_config"
    and r: "raised (get_all ex_config RootView) = None"
    using get_all_priority_order [of ex_config RootView "KStr ''a''"] by simp_all
  from get_all_priority_order [of ex_config RootView "KStr ''a''"] h
  have "yields (get_all ex_config (Subview RootView (KStr ''a''))) =
          List.map_filter (item (KStr ''a'')) (yields (get_all ex_config RootView))
        \<and> raised (get_all ex_config (Subview RootView (KStr ''a''))) = raised (get_all ex_config RootView)"
    by blast
  then show ?thesis
    unfolding y r by (simp add: ex_config_def item_def)
qed

section \<open>The canonical value\<close>

text \<open>
  Claim C2. \<open>get\<close> returns the first candidate of \<open>get_all\<close>; with no candidate
  it raises \<open>NotFoundError\<close> with the name of the view. With a type, the first candidate
  is returned when it is an instance of the type, and \<open>ConfigTypeError\<close> names the view,
  the expected and the actual type otherwise. With a callable, the result is the
  callable applied to the view and the first candidate.
\<close>

theorem get_first_candidate:
  "(get_all st v = Yield c rest \<longrightarrow>
      get st v NoTyp = Inr c
      \<and> get st v (IsType t) =
          (if isinstance c t then Inr c
           else Inl (ConfigTypeError (name v @ '' must by of type '' @ type_str t
                                      @ '', not '' @ type_str (type_of c))))
      \<and> get st v (Callable f) = f v c)
   \<and> (get_all st v = Done \<longrightarrow> get st v typ = Inl (NotFoundError (name v @ '' not found'')))
   \<and> (get_all st v = Raise e \<and> \<not> is_ValueError e \<longrightarrow> get st v typ = Inl e)"
  by (simp add: get_def)

theorem get_first_candidate_witness:
  "get ex_config (Subview RootView (KStr ''a'')) NoTyp = Inr (VInt 1)
   \<and> get ex_config (Subview RootView (KStr ''a'')) (IsType TInt) = Inr (VInt 1)
   \<and> get ex_config (Subview RootView (KStr ''a'')) (IsType TStr) =
       Inl (ConfigTypeError (''root['' @ [CHR 0x27] @ ''a'' @ [CHR 0x27] @ ''] must by of type <class ''
             @ [CHR 0x27] @ ''str'' @ [CHR 0x27] @ ''>, not <class '' @ [CHR 0x27] @ ''int'' @ [CHR 0x27] @ ''>''))
   \<and> get ex_config (Subview RootView (KStr ''c'')) NoTyp =
       Inl (NotFoundError (''root['' @ [CHR 0x27] @ ''c'' @ [CHR 0x27] @ ''] not found''))"
proof -
  have a: "get_all ex_config (Subview RootView (KStr ''a'')) =
      Yield (VInt 1) (Yield (VInt 2) (Yield (VInt 4) Done))"
    by (simp add: ex_config_def)
  have c: "get_all ex_config (Subview RootView (KStr ''c'')) = Done"
    by (simp add: ex_config_def)
  have n: "name (Subview RootView (KStr ''a'')) = ''root['' @ [CHR 0x27] @ ''a'' @ [CHR 0x27] @ '']''"
    "name (Subview RootView (KStr ''c'')) = ''root['' @ [CHR 0x27] @ ''c'' @ [CHR 0x27] @ '']''"
    by (simp_all add: repr_str_def repr_quote_def repr_char_def Let_def)
  from get_first_candidate [of ex_config "Subview RootView (KStr ''a'')" "VInt 1" _ TInt] a
  have 1: "get ex_config (Subview RootView (KStr ''a'')) NoTyp = Inr (VInt 1)"
    "get ex_config (Subview RootView (KStr ''a'')) (IsType TInt) = Inr (VInt 1)"
    by simp_all
  from get_first_candidate [of ex_config "Subview RootView (KStr ''a'')" "VInt 1" _ TStr] a
  have 2: "get ex_config (Subview RootView (KStr ''a'')) (IsType TStr) =
       Inl (ConfigTypeError (name (Subview RootView (KStr ''a'')) @ '' must by of type '' @ type_str TStr
                                      @ '', not '' @ type_str (type_of (VInt 1))))"
    by simp
  from get_first_candidate [of ex_config "Subview RootView (KStr ''c'')" _ _ _ _ NoTyp] c
  have 3: "get ex_config (Subview RootView (KStr ''c'')) NoTyp =
     Inl (NotFoundError (name (Subview RootView (KStr ''c'')) @ '' not found''))"
    by simp
  show ?thesis
    unfolding 1 2 3 n by (simp add: type_str_def)
qed

section \<open>Keys of a view\<close>

lemma keys_loop_char:
  "keys_loop nm ks g =
     (case find (\<lambda>c. \<not> is_dict c) (yields g) of
        Some c \<Rightarrow> Inl (ConfigTypeError (nm @ '' must be a dict, not '' @ type_str (type_of c)))
      | None \<Rightarrow> (case raised g of Some e \<Rightarrow> Inl e
                 | None \<Rightarrow> Inr (ks \<union> (\<Union>c\<in>set (yields g). dict_keys c))))"
proof (induction g arbitrary: ks)
  case (Yield c g)
  show ?case by (cases c) (auto simp: Yield.IH split: option.splits)
qed simp_all

text \<open>
  Claim C6. When every candidate of the view is a dict and the enumeration ends without
  an exception, \<open>keys\<close> is the union of the candidates' key sets. When a candidate is
  not a dict, \<open>keys\<close> raises \<open>ConfigTypeError\<close> with the name of the view and the type
  of such a candidate (the first one).
\<close>

theorem keys_union:
  "(raised (get_all st v) = None \<and> (\<forall>c\<in>set (yields (get_all st v)). is_dict c) \<longrightarrow>
      keys st v = Inr (\<Union>c\<in>set (yields (get_all st v)). dict_keys c))
   \<and> ((\<exists>c\<in>set (yields (get_all st v)). \<not> is_dict c) \<longrightarrow>
      (\<exists>c\<in>set (yields (get_all st v)). \<not> is_dict c
         \<and> keys st v = Inl (ConfigTypeError (name v @ '' must be a dict, not ''
                                              @ type_str (type_of c)))))"
proof -
  let ?G = "get_all st v"
  have A: "raised ?G = None \<and> (\<forall>c\<in>set (yields ?G). is_dict c) \<longrightarrow>
      keys st v = Inr (\<Union>c\<in>set (yields ?G). dict_keys c)"
  proof
    assume h: "raised ?G = None \<and> (\<forall>c\<in>set (yields ?G). is_dict c)"
    then have "find (\<lambda>c. \<not> is_dict c) (yields ?G) = None"
      by (simp add: find_None_iff)
    with h show "keys st v = Inr (\<Union>c\<in>set (yields ?G). dict_keys c)"
      by (simp add: keys_def keys_loop_char)
  qed
  have B: "(\<exists>c\<in>set (yields ?G). \<not> is_dict c) \<longrightarrow>
      (\<exists>c\<in>set (yields ?G). \<not> is_dict c
         \<and> keys st v = Inl (ConfigTypeError (name v @ '' must be a dict, not ''
                                              @ type_str (type_of c))))"
  proof
    assume "\<exists>c\<in>set (yields ?G). \<not> is_dict c"
    then obtain c where c: "find (\<lambda>c. \<not> is_dict c) (yields ?G) = Some c"
      by (cases "find (\<lambda>c. \<not> is_dict c) (yields ?G)") (auto simp: find_None_iff)
    then have "c \<in> set (yields ?G)" "\<not> is_dict c"
      by (auto simp: find_Some_iff)
    moreover from c have "keys st v = Inl (ConfigTypeError (name v @ '' must be a dict, not ''
                                              @ type_str (type_of c)))"
      by (simp add: keys_def keys_loop_char)
    ultimately show "\<exists>c\<in>set (yields ?G). \<not> is_dict c
         \<and> keys st v = Inl (ConfigTypeError (name v @ '' must be a dict, not ''
                                              @ type_str (type_of c)))"
      by blast
  qed
  from A B show ?thesis ..
qed

theorem keys_union_witness:
  "keys ex_config RootView = Inr {KStr ''a'', KStr ''b''}
   \<and> keys ex_config (Subview RootView (KStr ''a'')) =
       Inl (ConfigTypeError (''root['' @ [CHR 0x27] @ ''a'' @ [CHR 0x27]
              @ ''] must be a dict, not <class '' @ [CHR 0x27] @ ''int'' @ [CHR 0x27] @ ''>''))"
proof -
  let ?a = "Subview RootView (KStr ''a'')"
  have n: "name ?a = ''root['' @ [CHR 0x27] @ ''a'' @ [CHR 0x27] @ '']''"
    by (simp add: repr_str_def repr_quote_def repr_char_def Let_def)
  have r: "get_all ex_config RootView = iter (overlay ex_config # sources ex_config)" by simp
  have h: "raised (get_all ex_config RootView) = None
      \<and> (\<forall>c\<in>set (yields (get_all ex_config RootView)). is_dict c)"
    by (simp add: ex_config_def)
  from keys_union [of ex_config RootView] h
  have "keys ex_config RootView = Inr (\<Union>c\<in>set (yields (get_all ex_config RootView)). dict_keys c)"
    by blast
  then have 1: "keys ex_config RootView = Inr {KStr ''a'', KStr ''b''}"
    by (simp add: ex_config_def insert_commute)
  have a: "yields (get_all ex_config ?a) = [VInt 1, VInt 2, VInt 4]"
    by (simp add: ex_config_def)
  then have "\<exists>c\<in>set (yields (get_all ex_config ?a)). \<not> is_dict c" by simp
  with keys_union [of ex_config ?a]
  have "\<exists>c\<in>set (yields (get_all ex_config ?a)). \<not> is_dict c
         \<and> keys ex_config ?a = Inl (ConfigTypeError (name ?a @ '' must be a dict, not ''
                                              @ type_str (type_of c)))"
    by blast
  then have 2: "keys ex_config ?a = Inl (ConfigTypeError (name ?a @ '' must be a dict, not ''
                                              @ type_str TInt))"
    unfolding a by auto
  show ?thesis unfolding 1 2 n by (simp add: type_str_def)
qed

section \<open>Missing keys and values that cannot be subscripted\<close>

text \<open>
  Claim C3. A key that a dict lacks and an index out of the range of a list or string
  make the candidate absent: it gives no item and the loop goes on with the remaining
  candidates. A candidate that cannot be subscripted (\<^verbatim>\<open>None\<close>, a boolean or an integer
  under any key) ends the enumeration with \<open>ConfigTypeError\<close>, whose message has the
  name of the parent view and the type of the candidate. No candidate is both, and a
  subview whose parent has no candidate of the second kind raises nothing of its own.
\<close>

theorem subscript_failures_kept_apart:
  "(map_of kvs k = None \<longrightarrow> absent (VDict kvs) k)
   \<and> (py_index i (length xs) = None \<longrightarrow> absent (VList xs) (KInt i))
   \<and> (py_index i (length s) = None \<longrightarrow> absent (VStr s) (KInt i))
   \<and> (type_of c \<in> {TNoneType, TBool, TInt} \<longrightarrow> unsubscriptable c k)
   \<and> (absent c k \<longrightarrow> item k c = None
        \<and> Subview_loop (name parent) k (Yield c rest) = Subview_loop (name parent) k rest)
   \<and> (unsubscriptable c k \<longrightarrow>
        Subview_loop (name parent) k (Yield c rest) =
          Raise (ConfigTypeError (name parent @ '' must be a collection, not ''
                                  @ type_str (type_of c))))
   \<and> \<not> (absent c k \<and> unsubscriptable c k)
   \<and> (yields (get_all st parent) = cs @ c # cs' \<and> (\<forall>x\<in>set cs. \<not> unsubscriptable x k)
        \<and> unsubscriptable c k \<longrightarrow>
        raised (get_all st (Subview parent k)) =
          Some (ConfigTypeError (name parent @ '' must be a collection, not ''
                                 @ type_str (type_of c))))
   \<and> ((\<forall>x\<in>set (yields (get_all st parent)). \<not> unsubscriptable x k) \<longrightarrow>
        raised (get_all st (Subview parent k)) = raised (get_all st parent))"
proof -
  have 1: "map_of kvs k = None \<longrightarrow> absent (VDict kvs) k"
    by (simp add: absent_def)
  have 2: "py_index i (length xs) = None \<longrightarrow> absent (VList xs) (KInt i)"
    by (simp add: absent_def)
  have 3: "py_index i (length s) = None \<longrightarrow> absent (VStr s) (KInt i)"
    by (simp add: absent_def)
  have 4: "type_of c \<in> {TNoneType, TBool, TInt} \<longrightarrow> unsubscriptable c k"
    by (cases c) (simp_all add: unsubscriptable_def)
  have 5: "absent c k \<longrightarrow> item k c = None
        \<and> Subview_loop (name parent) k (Yield c rest) = Subview_loop (name parent) k rest"
    by (auto simp: absent_def item_def)
  have 6: "unsubscriptable c k \<longrightarrow>
        Subview_loop (name parent) k (Yield c rest) =
          Raise (ConfigTypeError (name parent @ '' must be a collection, not ''
                                  @ type_str (type_of c)))"
    by (simp add: unsubscriptable_def)
  have 7: "\<not> (absent c k \<and> unsubscriptable c k)"
    by (auto simp: absent_def unsubscriptable_def)
  have 8: "yields (get_all st parent) = cs @ c # cs' \<and> (\<forall>x\<in>set cs. \<not> unsubscriptable x k)
        \<and> unsubscriptable c k \<longrightarrow>
        raised (get_all st (Subview parent k)) =
          Some (ConfigTypeError (name parent @ '' must be a collection, not ''
                                 @ type_str (type_of c)))"
    using raised_Subview_loop_bad [of "get_all st parent" cs c cs' k "name parent"] by simp
  have 9: "(\<forall>x\<in>set (yields (get_all st parent)). \<not> unsubscriptable x k) \<longrightarrow>
        raised (get_all st (Subview parent k)) = raised (get_all st parent)"
    by (simp add: raised_Subview_loop_ok)
  from 1 2 3 4 5 6 7 8 9 show ?thesis by blast
qed

theorem subscript_failures_kept_apart_witness:
  "get_all ex_scalar (Subview (Subview RootView (KStr ''a'')) (KStr ''b'')) =
     Raise (ConfigTypeError (''root['' @ [CHR 0x27] @ ''a'' @ [CHR 0x27]
              @ ''] must be a collection, not <class '' @ [CHR 0x27] @ ''int'' @ [CHR 0x27] @ ''>''))
   \<and> get_all ex_scalar (Subview RootView (KStr ''a'')) =
       Yield (VInt 5) (Yield (VDict [(KStr ''b'', VInt 1)]) Done)
   \<and> get_all ex_scalar (Subview RootView (KInt 0)) = Done"
proof -
  let ?a = "Subview RootView (KStr ''a'')"
  have n: "name ?a = ''root['' @ [CHR 0x27] @ ''a'' @ [CHR 0x27] @ '']''"
    by (simp add: repr_str_def repr_quote_def repr_char_def Let_def)
  have pa: "get_all ex_scalar ?a = Yield (VInt 5) (Yield (VDict [(KStr ''b'', VInt 1)]) Done)"
  proof -
    have m: "map_of [] (KStr ''a'') = (None :: pyval option)"
      "map_of [(KStr ''b'', VInt 0)] (KStr ''a'') = None" by simp_all
    from subscript_failures_kept_apart [of "[]" "KStr ''a''"] m
    have a1: "absent (VDict []) (KStr ''a'')" by blast
    from subscript_failures_kept_apart [of "[(KStr ''b'', VInt 0)]" "KStr ''a''"] m
    have a2: "absent (VDict [(KStr ''b'', VInt 0)]) (KStr ''a'')" by blast
    have r: "get_all ex_scalar RootView = Yield (VDict []) (Yield (VDict [(KStr ''b'', VInt 0)])
        (iter [VDict [(KStr ''a'', VInt 5)], VDict [(KStr ''a'', VDict [(KStr ''b'', VInt 1)])]]))"
      by (simp add: ex_scalar_def)
    from subscript_failures_kept_apart [of _ "KStr ''a''" _ _ _ "VDict []" RootView] a1
    have s1: "\<And>rest. Subview_loop (name RootView) (KStr ''a'') (Yield (VDict []) rest)
        = Subview_loop (name RootView) (KStr ''a'') rest" by blast
    from subscript_failures_kept_apart [of _ "KStr ''a''" _ _ _ "VDict [(KStr ''b'', VInt 0)]" RootView] a2
    have s2: "\<And>rest. Subview_loop (name RootView) (KStr ''a'') (Yield (VDict [(KStr ''b'', VInt 0)]) rest)
        = Subview_loop (name RootView) (KStr ''a'') rest" by blast
    show ?thesis
      unfolding get_all.simps(2) r s1 s2 by simp
  qed
  have t: "type_of (VInt 5) \<in> {TNoneType, TBool, TInt}" by simp
  from subscript_failures_kept_apart [of _ "KStr ''b''" _ _ _ "VInt 5"] t
  have u: "unsubscriptable (VInt 5) (KStr ''b'')" by blast
  from subscript_failures_kept_apart [of _ "KStr ''b''" _ _ _ "VInt 5" ?a] u
  have b: "\<And>rest. Subview_loop (name ?a) (KStr ''b'') (Yield (VInt 5) rest) =
          Raise (ConfigTypeError (name ?a @ '' must be a collection, not ''
                                  @ type_str (type_of (VInt 5))))" by blast
  have 1: "get_all ex_scalar (Subview ?a (KStr ''b'')) =
     Raise (ConfigTypeError (name ?a @ '' must be a collection, not '' @ type_str (type_of (VInt 5))))"
    unfolding get_all.simps(2) [of _ ?a] pa b ..
  have 3: "get_all ex_scalar (Subview RootView (KInt 0)) = Done"
    by (simp add: ex_scalar_def)
  show ?thesis
    unfolding 1 n pa 3 by (simp add: type_str_def)
qed

section \<open>Writing through a view\<close>

lemma dict_path_empty: "dict_path ks (VDict [])"
  by (cases ks) simp_all

lemma dict_path_child: "dict_path (k # ks) (VDict d) \<Longrightarrow> dict_path ks (child d k)"
  by (auto simp: dict_path_empty split: option.splits)

lemma dict_path_snoc:
  "dict_path (ps @ [k]) ov \<Longrightarrow> dict_path ps ov \<and> is_dict (reach ps ov)"
proof (induction ps arbitrary: ov)
  case Nil
  then show ?case by (cases ov) simp_all
next
  case (Cons p ps)
  from Cons.prems obtain d where ov: "ov = VDict d" by (cases ov) simp_all
  with Cons.prems have "dict_path (ps @ [k]) (child d p)"
    using dict_path_child [of p "ps @ [k]" d] by simp
  from Cons.IH [OF this] show ?case
    by (auto simp: ov split: option.splits)
qed

lemma reach_snoc:
  "dict_path ps ov \<Longrightarrow> reach ps ov = VDict d \<Longrightarrow> reach (ps @ [k]) ov = child d k"
proof (induction ps arbitrary: ov)
  case Nil
  then show ?case by simp
next
  case (Cons p ps)
  from Cons.prems obtain e where ov: "ov = VDict e" by (cases ov) simp_all
  with Cons.prems have "dict_path ps (child e p)" "reach ps (child e p) = VDict d"
    using dict_path_child [of p ps e] by simp_all
  from Cons.IH [OF this] show ?case by (simp add: ov)
qed

lemma put_snoc:
  "dict_path ps ov \<Longrightarrow> reach ps ov = VDict d \<Longrightarrow>
   put (ps @ [k]) n ov = put ps (VDict (AList.update k n d)) ov"
proof (induction ps arbitrary: ov)
  case Nil
  then show ?case by simp
next
  case (Cons p ps)
  from Cons.prems obtain e where ov: "ov = VDict e" by (cases ov) simp_all
  with Cons.prems have "dict_path ps (child e p)" "reach ps (child e p) = VDict d"
    using dict_path_child [of p ps e] by simp_all
  from Cons.IH [OF this] show ?case by (simp add: ov)
qed

lemma py_in_dict: "py_in (key_value k) (VDict d) = Inr (k \<in> fst ` set d)"
proof -
  have "\<And>k'. py_eq (key_value k') (key_value k) = (k' = k)"
    subgoal for k' by (cases k'; cases k) simp_all
    done
  then show ?thesis by (cases k) (auto simp: image_iff)
qed

lemma Subview_overlay_dict:
  assumes "f (child d k) = (n, None)"
  shows "Subview_overlay k f (VDict d) = (VDict (AList.update k n d), None)"
proof (cases "map_of d k")
  case None
  then have "k \<notin> fst ` set d" by (simp add: map_of_eq_None_iff)
  with None assms show ?thesis
    by (simp add: Subview_overlay_def py_in_dict put_back_def update_conv')
next
  case (Some c)
  then have "k \<in> fst ` set d" by (metis map_of_eq_None_iff option.distinct(1))
  with Some assms show ?thesis
    by (simp add: Subview_overlay_def py_in_dict put_back_def)
qed

lemma with_overlay_dict_path:
  "dict_path (path v) ov \<Longrightarrow> f (reach (path v) ov) = (n, None) \<Longrightarrow>
   with_overlay v f ov = (put (path v) n ov, None)"
proof (induction v arbitrary: f n)
  case RootView
  then show ?case by simp
next
  case (Subview parent k)
  from Subview.prems(1) have dp: "dict_path (path parent) ov"
    and "is_dict (reach (path parent) ov)"
    using dict_path_snoc [of "path parent" k ov] by simp_all
  then obtain d where d: "reach (path parent) ov = VDict d"
    by (cases "reach (path parent) ov") simp_all
  from Subview.prems(2) have "f (child d k) = (n, None)"
    using reach_snoc [OF dp d, of k] by simp
  then have "Subview_overlay k f (reach (path parent) ov) = (VDict (AList.update k n d), None)"
    unfolding d by (rule Subview_overlay_dict)
  from Subview.IH [of "Subview_overlay k f" "VDict (AList.update k n d)", OF dp this] show ?case
    using put_snoc [OF dp d, of k n] by simp
qed

lemma lookup_snoc:
  "lookup c (ps @ [k]) = (case lookup c ps of Inl e \<Rightarrow> Inl e | Inr c' \<Rightarrow> py_getitem c' k)"
  by (induction ps arbitrary: c) (auto split: sum.splits)

lemma lookup_put: "dict_path ps ov \<Longrightarrow> lookup (put ps n ov) ps = Inr n"
proof (induction ps arbitrary: ov)
  case Nil
  then show ?case by simp
next
  case (Cons p ps)
  from Cons.prems obtain e where ov: "ov = VDict e" by (cases ov) simp_all
  with Cons.prems have "dict_path ps (child e p)"
    using dict_path_child [of p ps e] by simp
  from Cons.IH [OF this] show ?case by (simp add: ov update_conv')
qed

lemma lookup_put_prefix:
  "dict_path ps ov \<Longrightarrow> is_dict n \<Longrightarrow> prefix q ps \<Longrightarrow>
   \<exists>d. lookup (put ps n ov) q = Inr (VDict d)"
proof (induction ps arbitrary: ov q)
  case Nil
  then show ?case by (cases n) simp_all
next
  case (Cons p ps)
  from Cons.prems obtain e where ov: "ov = VDict e" by (cases ov) simp_all
  with Cons.prems have dp: "dict_path ps (child e p)"
    using dict_path_child [of p ps e] by simp
  show ?case
  proof (cases q)
    case Nil
    then show ?thesis by (simp add: ov)
  next
    case (Cons a q')
    with Cons.prems(3) have "a = p" "prefix q' ps" by simp_all
    with Cons.IH [OF dp Cons.prems(2), of q'] show ?thesis
      by (simp add: ov Cons update_conv')
  qed
qed

lemma get_all_lookup:
  "lookup (overlay st) (path v) = Inr c \<Longrightarrow> \<exists>rest. get_all st v = Yield c rest"
proof (induction v arbitrary: c)
  case RootView
  then show ?case by simp
next
  case (Subview parent k)
  from Subview.prems obtain c' where c': "lookup (overlay st) (path parent) = Inr c'"
    and k: "py_getitem c' k = Inr c"
    by (auto simp: lookup_snoc split: sum.splits)
  from Subview.IH [OF c'] obtain rest where "get_all st parent = Yield c' rest" ..
  with k show ?case by simp
qed

lemma dict_path_reach: "dict_path ps ov \<Longrightarrow> is_dict (reach ps ov)"
proof (induction ps arbitrary: ov)
  case Nil
  then show ?case by simp
next
  case (Cons p ps)
  from Cons.prems obtain e where ov: "ov = VDict e" by (cases ov) simp_all
  with Cons.prems have "dict_path ps (child e p)"
    using dict_path_child [of p ps e] by simp
  from Cons.IH [OF this] show ?case by (simp add: ov)
qed

lemma setitem_dict_path:
  assumes dp: "dict_path (path v) ov"
  obtains d where "reach (path v) ov = VDict d"
    and "setitem v k x ov = (put (path v) (VDict (AList.update k x d)) ov, None)"
proof -
  from dict_path_reach [OF dp] obtain d where d: "reach (path v) ov = VDict d"
    by (cases "reach (path v) ov") simp_all
  then have "assign k x (reach (path v) ov) = (VDict (AList.update k x d), None)"
    by (simp add: assign_def)
  from with_overlay_dict_path [where f = "assign k x" and n = "VDict (AList.update k x d)", OF dp this]
  have "setitem v k x ov = (put (path v) (VDict (AList.update k x d)) ov, None)"
    by (simp add: setitem_def)
  with d that show thesis by blast
qed

lemma get_first: "get_all st v = Yield c rest \<Longrightarrow> get st v NoTyp = Inr c"
  by (simp add: get_def)

lemma py_setitem_getitem: "py_setitem c k x = Inr c' \<Longrightarrow> py_getitem c' k = Inr x"
  by (cases "(c, k)" rule: py_getitem.cases)
     (auto simp: update_conv' py_index_def Let_def split: option.splits if_splits)

lemma py_setitem_not_str: "py_setitem c k x = Inr c' \<Longrightarrow> c' \<noteq> VStr s"
  by (cases "(c, k)" rule: py_getitem.cases) (auto split: option.splits)

lemma put_back_getitem:
  assumes "py_getitem po k = Inr node" and "\<And>s. po \<noteq> VStr s"
  shows "py_getitem (put_back po k node') k = Inr node'"
proof (cases "py_setitem po k node'")
  case (Inr p)
  then show ?thesis by (simp add: put_back_def py_setitem_getitem)
next
  case (Inl e)
  with assms show ?thesis
    by (cases "(po, k)" rule: py_getitem.cases) (auto split: option.splits)
qed

lemma Subview_overlay_success:
  assumes "Subview_overlay k f po = (po', None)"
  shows "\<exists>node node'. f node = (node', None) \<and> py_getitem po' k = Inr node'"
proof -
  from assms obtain present where p: "py_in (key_value k) po = Inr present"
    by (cases "py_in (key_value k) po") (auto simp: Subview_overlay_def)
  define r where "r = (if \<not> present then py_setitem po k (VDict []) else Inr po)"
  from assms p obtain po1 where po1: "r = Inr po1"
    by (cases r) (auto simp: Subview_overlay_def r_def)
  from assms p po1 obtain node where n: "py_getitem po1 k = Inr node"
    by (cases "py_getitem po1 k") (auto simp: Subview_overlay_def r_def split: if_splits)
  obtain node' e where f: "f node = (node', e)" by (cases "f node")
  from assms p po1 n f have e: "e = None" and po': "po' = put_back po1 k node'"
    by (auto simp: Subview_overlay_def r_def split: if_splits)
  have "po1 \<noteq> VStr s" for s
  proof (cases present)
    case True
    with po1 have "po1 = po" by (simp add: r_def)
    with p n show ?thesis by (cases k) auto
  next
    case False
    with po1 have "py_setitem po k (VDict []) = Inr po1" by (simp add: r_def)
    then show ?thesis by (rule py_setitem_not_str)
  qed
  with n have "py_getitem (put_back po1 k node') k = Inr node'"
    by (rule put_back_getitem)
  with f e po' show ?thesis by blast
qed

lemma with_overlay_success:
  "with_overlay v f ov = (ov', None) \<Longrightarrow>
   \<exists>node node'. f node = (node', None) \<and> lookup ov' (path v) = Inr node'"
proof (induction v arbitrary: f)
  case RootView
  then show ?case by auto
next
  case (Subview parent k)
  from Subview.prems have "with_overlay parent (Subview_overlay k f) ov = (ov', None)" by simp
  from Subview.IH [OF this] obtain po po' where s: "Subview_overlay k f po = (po', None)"
    and l: "lookup ov' (path parent) = Inr po'" by blast
  from Subview_overlay_success [OF s] obtain node node' where "f node = (node', None)"
    and "py_getitem po' k = Inr node'" by blast
  with l show ?case by (auto simp: lookup_snoc)
qed

lemma setitem_success:
  assumes "setitem v k x ov = (ov', None)"
  shows "lookup ov' (path (Subview v k)) = Inr x"
proof -
  from assms have "with_overlay v (assign k x) ov = (ov', None)"
    by (simp add: setitem_def)
  from with_overlay_success [OF this] obtain node node'
    where a: "assign k x node = (node', None)" and l: "lookup ov' (path v) = Inr node'" by blast
  from a have "py_setitem node k x = Inr node'"
    by (cases "py_setitem node k x") (auto simp: assign_def)
  then have "py_getitem node' k = Inr x" by (rule py_setitem_getitem)
  with l show ?thesis by (simp add: lookup_snoc)
qed

text \<open>
  Claim C4, as the code has it. Let \<open>st'\<close> be a state whose overlay is the overlay after
  \<open>v[k] = x\<close>, whatever its sources are (the write may have changed a source that shares
  an object with the overlay). Whenever the write raises nothing, the overlay has \<open>x\<close>
  under the path of \<open>v\<close> followed by \<open>k\<close>, \<open>x\<close> is the first candidate of \<open>v[k]\<close>, before
  anything a source holds and whatever else the overlay held, and \<open>v[k].get()\<close> returns
  \<open>x\<close>. The write raises nothing when the overlay is a dict and every object that it
  already holds along the path of \<open>v\<close> is a dict; every prefix of the path of \<open>v\<close> then
  leads to a dict in the overlay, the missing ones having been created.
\<close>


theorem write_then_read:
  "(setitem v k x (overlay st) = (overlay st', None) \<longrightarrow>
      lookup (overlay st') (path (Subview v k)) = Inr x
      \<and> (\<exists>rest. get_all st' (Subview v k) = Yield x rest)
      \<and> get st' (Subview v k) NoTyp = Inr x)
   \<and> (dict_path (path v) (overlay st) \<longrightarrow>
      (\<exists>ov'. setitem v k x (overlay st) = (ov', None)
         \<and> (\<forall>q. prefix q (path v) \<longrightarrow> (\<exists>d. lookup ov' q = Inr (VDict d)))))"
proof -
  have A: "setitem v k x (overlay st) = (overlay st', None) \<longrightarrow>
      lookup (overlay st') (path (Subview v k)) = Inr x
      \<and> (\<exists>rest. get_all st' (Subview v k) = Yield x rest)
      \<and> get st' (Subview v k) NoTyp = Inr x"
  proof
    assume "setitem v k x (overlay st) = (overlay st', None)"
    then have l: "lookup (overlay st') (path (Subview v k)) = Inr x"
      by (rule setitem_success)
    from get_all_lookup [OF l] obtain rest where g: "get_all st' (Subview v k) = Yield x rest" ..
    note top = get_first [OF g]
    from l g top show "lookup (overlay st') (path (Subview v k)) = Inr x
      \<and> (\<exists>rest. get_all st' (Subview v k) = Yield x rest)
      \<and> get st' (Subview v k) NoTyp = Inr x" by blast
  qed
  have B: "dict_path (path v) (overlay st) \<longrightarrow>
      (\<exists>ov'. setitem v k x (overlay st) = (ov', None)
         \<and> (\<forall>q. prefix q (path v) \<longrightarrow> (\<exists>d. lookup ov' q = Inr (VDict d))))"
  proof
    assume dp: "dict_path (path v) (overlay st)"
    then obtain d where d: "reach (path v) (overlay st) = VDict d"
      and s: "setitem v k x (overlay st) =
           (put (path v) (VDict (AList.update k x d)) (overlay st), None)"
      by (rule setitem_dict_path)
    let ?n = "VDict (AList.update k x d)"
    let ?ov = "put (path v) ?n (overlay st)"
    have p: "\<forall>q. prefix q (path v) \<longrightarrow> (\<exists>d. lookup ?ov q = Inr (VDict d))"
      using lookup_put_prefix [OF dp, of ?n] by simp
    show "\<exists>ov'. setitem v k x (overlay st) = (ov', None)
         \<and> (\<forall>q. prefix q (path v) \<longrightarrow> (\<exists>d. lookup ov' q = Inr (VDict d)))"
      by (rule exI [of _ ?ov]) (use s p in blast)
  qed
  from A B show ?thesis ..
qed

theorem write_then_read_witness:
  "dict_path (path (Subview (Subview RootView (KStr ''x'')) (KStr ''y''))) (overlay ex_config)
   \<and> setitem (Subview (Subview RootView (KStr ''x'')) (KStr ''y'')) (KStr ''z'') (VInt 9)
       (overlay ex_config) =
       (VDict [(KStr ''a'', VInt 1),
               (KStr ''x'', VDict [(KStr ''y'', VDict [(KStr ''z'', VInt 9)])])], None)
   \<and> get \<lparr>overlay = VDict [(KStr ''a'', VInt 1),
               (KStr ''x'', VDict [(KStr ''y'', VDict [(KStr ''z'', VInt 9)])])],
           sources = [VDict [(KStr ''x'', VDict [(KStr ''y'', VDict [(KStr ''z'', VInt 0)])])]]\<rparr>
        (Subview (Subview (Subview RootView (KStr ''x'')) (KStr ''y'')) (KStr ''z'')) NoTyp
       = Inr (VInt 9)"
proof -
  let ?v = "Subview (Subview RootView (KStr ''x'')) (KStr ''y'')"
  let ?ov = "VDict [(KStr ''a'', VInt 1),
               (KStr ''x'', VDict [(KStr ''y'', VDict [(KStr ''z'', VInt 9)])])]"
  let ?st = "\<lparr>overlay = ?ov,
           sources = [VDict [(KStr ''x'', VDict [(KStr ''y'', VDict [(KStr ''z'', VInt 0)])])]]\<rparr>"
  have h: "dict_path (path ?v) (overlay ex_config)"
    by (simp add: ex_config_def)
  have s: "setitem ?v (KStr ''z'') (VInt 9) (overlay ex_config) = (overlay ?st, None)"
    by (simp add: setitem_def assign_def Subview_overlay_def put_back_def ex_config_def)
  from write_then_read [of ?v "KStr ''z''" "VInt 9" ex_config ?st] s
  have "get ?st (Subview ?v (KStr ''z'')) NoTyp = Inr (VInt 9)" by blast
  with s h show ?thesis by simp
qed

text \<open>
  Claim C4 as stated, for every view, fails: after \<open>root['a'] = 1\<close> on an empty overlay,
  the overlay of \<open>root['a']\<close> is the integer \<open>1\<close>, the write \<open>root['a']['c'] = 7\<close> raises
  \<open>TypeError\<close> and changes nothing, and \<open>root['a']['c'].get()\<close> does not return \<open>7\<close>.
\<close>


theorem write_under_scalar_counterexample:
  "setitem RootView (KStr ''a'') (VInt 1) (VDict []) = (VDict [(KStr ''a'', VInt 1)], None)
   \<and> setitem (Subview RootView (KStr ''a'')) (KStr ''c'') (VInt 7) (VDict [(KStr ''a'', VInt 1)]) =
       (VDict [(KStr ''a'', VInt 1)], Some TypeError)
   \<and> get \<lparr>overlay = VDict [(KStr ''a'', VInt 1)], sources = []\<rparr>
        (Subview (Subview RootView (KStr ''a'')) (KStr ''c'')) NoTyp \<noteq> Inr (VInt 7)"
  by (simp add: setitem_def assign_def Subview_overlay_def put_back_def get_def)

section \<open>A write through a nested subview\<close>



section \<open>Reading the configuration files\<close>







section \<open>Choices\<close>

lemma py_in_py_list: "py_in x choices = Inr b \<Longrightarrow> \<exists>l. py_list choices = Inr l"
  by (cases choices) simp_all

text \<open>
  Claim C9, as the code has it. When the membership test finds the candidate not in the
  choices, \<open>as_choice\<close> raises \<open>ConfigValueError\<close>, whose message has the name of the
  view, the candidate and the list of the choices. When the candidate is in the choices
  the candidate itself is returned, from \<open>as_choice\<close> and from \<open>get\<close> with it, also when
  the choices are a dict.
\<close>

theorem choice_returns_candidate:
  "(py_in x choices = Inr False \<longrightarrow>
      (\<exists>l. py_list choices = Inr l
         \<and> as_choice choices v x =
             Inl (ConfigValueError (name v @ '' must be one of '' @ repr x
                                    @ '', not '' @ repr (VList l)))))
   \<and> (py_in x choices = Inr True \<longrightarrow> as_choice choices v x = Inr x)
   \<and> (py_in x choices = Inr True \<and> get_all st v = Yield x rest \<longrightarrow>
        get st v (Callable (as_choice choices)) = Inr x)"
proof -
  have A: "py_in x choices = Inr False \<longrightarrow>
      (\<exists>l. py_list choices = Inr l
         \<and> as_choice choices v x =
             Inl (ConfigValueError (name v @ '' must be one of '' @ repr x
                                    @ '', not '' @ repr (VList l))))"
  proof
    assume h: "py_in x choices = Inr False"
    from py_in_py_list [OF this] obtain l where "py_list choices = Inr l" ..
    with h show "\<exists>l. py_list choices = Inr l
         \<and> as_choice choices v x =
             Inl (ConfigValueError (name v @ '' must be one of '' @ repr x
                                    @ '', not '' @ repr (VList l)))"
      by (simp add: as_choice_def)
  qed
  have B: "py_in x choices = Inr True \<longrightarrow> as_choice choices v x = Inr x"
    by (simp add: as_choice_def)
  have C: "py_in x choices = Inr True \<and> get_all st v = Yield x rest \<longrightarrow>
        get st v (Callable (as_choice choices)) = Inr x"
    by (simp add: as_choice_def get_def)
  from A B C show ?thesis by blast
qed

theorem choice_returns_candidate_witness:
  "as_choice ex_choices (Subview RootView (KInt 3)) (VStr ''yes'') = Inr (VStr ''yes'')
   \<and> as_choice ex_choices (Subview RootView (KInt 3)) (VStr ''maybe'') =
       Inl (ConfigValueError (''root[3] must be one of '' @ [CHR 0x27] @ ''maybe'' @ [CHR 0x27]
             @ '', not ['' @ [CHR 0x27] @ ''yes'' @ [CHR 0x27] @ '', '' @ [CHR 0x27] @ ''no'' @ [CHR 0x27] @ '']''))"
proof -
  have y: "py_in (VStr ''yes'') ex_choices = Inr True"
    and m: "py_in (VStr ''maybe'') ex_choices = Inr False"
    by (simp_all add: ex_choices_def)
  have l: "py_list ex_choices = Inr [VStr ''yes'', VStr ''no'']"
    by (simp add: ex_choices_def)
  have n: "name (Subview RootView (KInt 3)) = ''root[3]''"
    by (simp add: repr_int_def digits.simps digit_char_def)
  have r: "repr (VStr ''maybe'') = [CHR 0x27] @ ''maybe'' @ [CHR 0x27]"
    "repr (VList [VStr ''yes'', VStr ''no'']) =
       ''['' @ [CHR 0x27] @ ''yes'' @ [CHR 0x27] @ '', '' @ [CHR 0x27] @ ''no'' @ [CHR 0x27] @ '']''"
    by (simp_all add: repr_str_def repr_quote_def repr_char_def Let_def)
  from choice_returns_candidate [of "VStr ''yes''" ex_choices "Subview RootView (KInt 3)"] y
  have 1: "as_choice ex_choices (Subview RootView (KInt 3)) (VStr ''yes'') = Inr (VStr ''yes'')"
    by blast
  from choice_returns_candidate [of "VStr ''maybe''" ex_choices "Subview RootView (KInt 3)"] m l
  have 2: "as_choice ex_choices (Subview RootView (KInt 3)) (VStr ''maybe'') =
     Inl (ConfigValueError (name (Subview RootView (KInt 3)) @ '' must be one of '' @ repr (VStr ''maybe'')
                                    @ '', not '' @ repr (VList [VStr ''yes'', VStr ''no''])))"
    by auto
  show ?thesis unfolding 1 2 n r by simp
qed

text \<open>
  Claim C9 as stated fails for a dict of choices: with \<open>yes\<close> mapped to \<open>True\<close>, the
  candidate \<open>yes\<close> is returned as it is, not the value \<open>True\<close> that the dict has for it.
\<close>

theorem choice_replacement_counterexample:
  "py_in (VStr ''yes'') ex_choices = Inr True
   \<and> py_getitem ex_choices (KStr ''yes'') = Inr (VBool True)
   \<and> as_choice ex_choices RootView (VStr ''yes'') = Inr (VStr ''yes'')
   \<and> as_choice ex_choices RootView (VStr ''yes'') \<noteq> Inr (VBool True)"
  by (simp add: ex_choices_def as_choice_def)

section \<open>File names\<close>


lemma isabs_path_join: "isabs a \<Longrightarrow> isabs (path_join a b)"
  by (cases a) (auto simp: isabs_def path_join_def)

lemma abspath_join: "abspath env p = normpath (path_join (getcwd env) p)"
  by (simp add: abspath_def isabs_def path_join_def)

lemma split_no_sep: "c \<in> set (split sep s) \<Longrightarrow> sep \<notin> set c"
proof (induction s arbitrary: c)
  case Nil
  then show ?case by simp
next
  case (Cons x s)
  show ?case
  proof (cases "x = sep")
    case True
    with Cons show ?thesis by auto
  next
    case False
    show ?thesis
    proof (cases "split sep s")
      case Nil
      with Cons.prems False show ?thesis by simp
    next
      case (Cons p ps)
      with Cons.prems Cons.IH False show ?thesis by auto
    qed
  qed
qed

lemma normpath_loop_proper:
  "initial_slashes \<noteq> 0 \<Longrightarrow> \<forall>c\<in>set new_comps. proper_component c \<Longrightarrow>
   \<forall>c\<in>set comps. CHR ''/'' \<notin> set c \<Longrightarrow>
   \<forall>c\<in>set (normpath_loop initial_slashes comps new_comps). proper_component c"
proof (induction comps arbitrary: new_comps)
  case Nil
  then show ?case by simp
next
  case (Cons c comps)
  from Cons.prems(3) have rest: "\<forall>c\<in>set comps. CHR ''/'' \<notin> set c" and c: "CHR ''/'' \<notin> set c"
    by simp_all
  note IH = Cons.IH [OF Cons.prems(1) _ rest]
  consider (skip) "c = [] \<or> c = ''.''" | (app) "c \<noteq> []" "c \<noteq> ''.''" "c \<noteq> ''..''"
    | (up) "c = ''..''"
    by blast
  then show ?case
  proof cases
    case skip
    with IH [OF Cons.prems(2)] show ?thesis by auto
  next
    case app
    with Cons.prems(2) c have "\<forall>d\<in>set (new_comps @ [c]). proper_component d"
      by (simp add: proper_component_def)
    from IH [OF this] app show ?thesis by simp
  next
    case up
    have pop: "\<forall>d\<in>set (butlast new_comps). proper_component d"
      using Cons.prems(2) by (auto dest: in_set_butlastD)
    have "new_comps \<noteq> [] \<Longrightarrow> last new_comps \<noteq> ''..''"
      using Cons.prems(2) last_in_set [of new_comps] by (auto simp: proper_component_def)
    with IH [OF pop] IH [OF Cons.prems(2)] Cons.prems(1) up show ?thesis by simp
  qed
qed

lemma normpath_absolute:
  assumes "isabs p"
  shows "\<exists>comps. (\<forall>c\<in>set comps. proper_component c)
     \<and> (normpath p = ''/'' @ join ''/'' comps \<or> normpath p = ''//'' @ join ''/'' comps)"
proof -
  define i :: nat where "i = (if prefix ''//'' p \<and> \<not> prefix ''///'' p then 2 else 1)"
  define comps where "comps = normpath_loop i (split CHR ''/'' p) []"
  have i: "i \<noteq> 0" by (simp add: i_def)
  have "\<forall>c\<in>set (split CHR ''/'' p). CHR ''/'' \<notin> set c"
    by (auto dest: split_no_sep)
  with i have proper: "\<forall>c\<in>set comps. proper_component c"
    unfolding comps_def by (intro normpath_loop_proper) simp_all
  from assms have "normpath p = replicate i CHR ''/'' @ join ''/'' comps"
    by (auto simp: normpath_def isabs_def Let_def i_def comps_def)
  then have "normpath p = ''/'' @ join ''/'' comps \<or> normpath p = ''//'' @ join ''/'' comps"
    by (auto simp: i_def numeral_2_eq_2 split: if_splits)
  with proper show ?thesis by blast
qed

lemma expanduser_tilde:
  assumes "CHR ''/'' \<notin> set user" and "tail = [] \<or> prefix ''/'' tail"
  shows "expanduser env (''~'' @ user @ tail) =
     (case userhome env user of
        None \<Rightarrow> ''~'' @ user @ tail
      | Some home \<Rightarrow> (if rstrip_sep home @ tail = [] then ''/'' else rstrip_sep home @ tail))"
proof -
  from assms have tw: "takeWhile (\<lambda>c. c \<noteq> CHR ''/'') (user @ tail) = user"
    by (cases tail) (auto simp: takeWhile_append)
  have i: "1 + length user = 1 \<longleftrightarrow> user = []" by simp
  show ?thesis
    by (simp add: expanduser_def Let_def tw userhome_def split: option.splits)
qed

lemma split_proper: "sep \<notin> set c \<Longrightarrow> split sep c = [c]"
  by (induction c) auto

lemma split_append: "sep \<notin> set c \<Longrightarrow> split sep (c @ sep # r) = c # split sep r"
  by (induction c) auto

lemma split_join:
  "comps \<noteq> [] \<Longrightarrow> \<forall>c\<in>set comps. CHR ''/'' \<notin> set c \<Longrightarrow> split CHR ''/'' (join ''/'' comps) = comps"
proof (induction "''/''" comps rule: join.induct)
  case 1
  then show ?case by simp
next
  case (2 p)
  then show ?case by (simp add: split_proper)
next
  case (3 p q ps)
  then show ?case using split_append [of "CHR ''/''" p "join ''/'' (q # ps)"] by simp
qed

lemma normpath_loop_id:
  "\<forall>c\<in>set comps. proper_component c \<Longrightarrow> normpath_loop i comps new_comps = new_comps @ comps"
  by (induction comps arbitrary: new_comps) (auto simp: proper_component_def)

lemma join_proper_hd:
  "comps \<noteq> [] \<Longrightarrow> \<forall>c\<in>set comps. proper_component c \<Longrightarrow>
   join ''/'' comps \<noteq> [] \<and> hd (join ''/'' comps) \<noteq> CHR ''/''"
proof (induction "''/''" comps rule: join.induct)
  case (3 p q ps)
  then show ?case by (cases p) (auto simp: proper_component_def)
next
  case (2 p)
  then show ?case by (cases p) (auto simp: proper_component_def)
qed simp

lemma normpath_normal:
  assumes "\<forall>c\<in>set comps. proper_component c"
  shows "normpath (''/'' @ join ''/'' comps) = ''/'' @ join ''/'' comps"
proof (cases comps)
  case Nil
  then show ?thesis by (simp add: normpath_def)
next
  case (Cons c cs)
  with assms have ne: "comps \<noteq> []" and sl: "\<forall>c\<in>set comps. CHR ''/'' \<notin> set c"
    by (auto simp: proper_component_def)
  from join_proper_hd [OF ne assms] obtain x xs where j: "join ''/'' comps = x # xs" "x \<noteq> CHR ''/''"
    by (cases "join ''/'' comps") auto
  have sp: "split CHR ''/'' (''/'' @ join ''/'' comps) = [] # comps"
    using split_join [OF ne sl] by simp
  have "normpath_loop 1 ([] # comps) [] = comps"
    using normpath_loop_id [OF assms, of 1 "[]"] by simp
  with sp j ne show ?thesis
    by (simp add: normpath_def Let_def)
qed

text \<open>
  Claim C8, as the code has it. \<open>as_filename\<close> of a string is the normalised join of
  the working directory and the string with its user directory expanded. With an
  absolute working directory the result is one or two slashes followed by components
  joined by single slashes, none of them empty, \<open>.\<close> or \<open>..\<close>; a path that has this form
  with one slash is returned as it is. A string without a leading \<open>~\<close> is not changed
  by the expansion. In a string with a leading \<open>~\<close>, the \<open>~\<close> and the user name up to the
  first slash are replaced by the home directory of that user (of the current user when
  the name is empty) without its trailing slashes, when the directory is known, and the
  string is left as it is when it is not.
\<close>


theorem filename_is_abspath_of_expanduser:
  assumes "isabs (getcwd env)"
  shows "as_filename env v (VStr s) =
           Inr (VStr (normpath (path_join (getcwd env) (expanduser env s))))
     \<and> (\<exists>comps. (\<forall>c\<in>set comps. proper_component c)
          \<and> (normpath (path_join (getcwd env) (expanduser env s)) = ''/'' @ join ''/'' comps
             \<or> normpath (path_join (getcwd env) (expanduser env s)) = ''//'' @ join ''/'' comps))
     \<and> ((\<forall>c\<in>set cs. proper_component c) \<longrightarrow>
          as_filename env v (VStr (''/'' @ join ''/'' cs)) = Inr (VStr (''/'' @ join ''/'' cs)))
     \<and> (\<not> prefix ''~'' s \<longrightarrow> expanduser env s = s)
     \<and> (s = ''~'' @ user @ tail \<and> CHR ''/'' \<notin> set user \<and> (tail = [] \<or> prefix ''/'' tail) \<longrightarrow>
          expanduser env s =
            (case userhome env user of
               None \<Rightarrow> s
             | Some home \<Rightarrow> (if rstrip_sep home @ tail = [] then ''/'' else rstrip_sep home @ tail)))"
proof -
  have 1: "as_filename env v (VStr s) =
           Inr (VStr (normpath (path_join (getcwd env) (expanduser env s))))"
    by (simp add: as_filename_def abspath_join)
  have 2: "\<exists>comps. (\<forall>c\<in>set comps. proper_component c)
          \<and> (normpath (path_join (getcwd env) (expanduser env s)) = ''/'' @ join ''/'' comps
             \<or> normpath (path_join (getcwd env) (expanduser env s)) = ''//'' @ join ''/'' comps)"
    using assms by (intro normpath_absolute isabs_path_join)
  have 3: "\<not> prefix ''~'' s \<longrightarrow> expanduser env s = s"
    by (simp add: expanduser_def)
  have 4: "s = ''~'' @ user @ tail \<and> CHR ''/'' \<notin> set user \<and> (tail = [] \<or> prefix ''/'' tail) \<longrightarrow>
          expanduser env s =
            (case userhome env user of
               None \<Rightarrow> s
             | Some home \<Rightarrow> (if rstrip_sep home @ tail = [] then ''/'' else rstrip_sep home @ tail))"
    using expanduser_tilde [of user tail env] by (auto split: option.splits)
  have 5: "(\<forall>c\<in>set cs. proper_component c) \<longrightarrow>
          as_filename env v (VStr (''/'' @ join ''/'' cs)) = Inr (VStr (''/'' @ join ''/'' cs))"
  proof
    assume "\<forall>c\<in>set cs. proper_component c"
    then have "normpath (''/'' @ join ''/'' cs) = ''/'' @ join ''/'' cs"
      by (rule normpath_normal)
    then show "as_filename env v (VStr (''/'' @ join ''/'' cs)) = Inr (VStr (''/'' @ join ''/'' cs))"
      by (simp add: as_filename_def abspath_def isabs_def expanduser_def)
  qed
  from 1 2 3 4 5 show ?thesis by blast
qed

theorem filename_is_abspath_of_expanduser_witness:
  "isabs (getcwd ex_env)
   \<and> as_filename ex_env RootView (VStr ''~/conf/../lib'') = Inr (VStr ''/home/ann/lib'')
   \<and> as_filename ex_env RootView (VStr ''~bob//z/./'') = Inr (VStr ''/home/bob/z'')
   \<and> as_filename ex_env RootView (VStr ''~carol/x'') = Inr (VStr ''/srv/app/~carol/x'')
   \<and> as_filename ex_env RootView (VStr ''/etc/app'') = Inr (VStr ''/etc/app'')"
proof -
  have h: "isabs (getcwd ex_env)" by (simp add: ex_env_def isabs_def)
  note T = filename_is_abspath_of_expanduser [where env = ex_env and v = RootView, OF h]
  note res = T [THEN conjunct1]
  note normal = T [THEN conjunct2, THEN conjunct2, THEN conjunct1, THEN mp]
  note tilde = T [THEN conjunct2, THEN conjunct2, THEN conjunct2, THEN conjunct2, THEN mp]
  have cwd: "getcwd ex_env = ''/srv/app''" by (simp add: ex_env_def)
  have u: "userhome ex_env [] = Some ''/home/ann/''" "userhome ex_env ''bob'' = Some ''/home/bob''"
    "userhome ex_env ''carol'' = None"
    by (simp_all add: userhome_def ex_env_def)
  have r: "rstrip_sep ''/home/ann/'' = ''/home/ann''" "rstrip_sep ''/home/bob'' = ''/home/bob''"
    by (simp_all add: rstrip_sep_def)
  have "''~/conf/../lib'' = ''~'' @ [] @ ''/conf/../lib'' \<and> CHR ''/'' \<notin> set []
      \<and> (''/conf/../lib'' = [] \<or> prefix ''/'' ''/conf/../lib'')"
    by simp
  from tilde [OF this] have e1: "expanduser ex_env ''~/conf/../lib'' = ''/home/ann/conf/../lib''"
    by (simp add: u r)
  have "''~bob//z/./'' = ''~'' @ ''bob'' @ ''//z/./'' \<and> CHR ''/'' \<notin> set ''bob''
      \<and> (''//z/./'' = [] \<or> prefix ''/'' ''//z/./'')"
    by simp
  from tilde [OF this] have e2: "expanduser ex_env ''~bob//z/./'' = ''/home/bob//z/./''"
    by (simp add: u r)
  have "''~carol/x'' = ''~'' @ ''carol'' @ ''/x'' \<and> CHR ''/'' \<notin> set ''carol''
      \<and> (''/x'' = [] \<or> prefix ''/'' ''/x'')"
    by simp
  from tilde [OF this] have e3: "expanduser ex_env ''~carol/x'' = ''~carol/x''"
    by (simp add: u)
  have n1: "normpath (path_join ''/srv/app'' ''/home/ann/conf/../lib'') = ''/home/ann/lib''"
    by (simp add: path_join_def normpath_def Let_def)
  have n2: "normpath (path_join ''/srv/app'' ''/home/bob//z/./'') = ''/home/bob/z''"
    by (simp add: path_join_def normpath_def Let_def)
  have n3: "normpath (path_join ''/srv/app'' ''~carol/x'') = ''/srv/app/~carol/x''"
    by (simp add: path_join_def normpath_def Let_def)
  have 1: "as_filename ex_env RootView (VStr ''~/conf/../lib'') = Inr (VStr ''/home/ann/lib'')"
    using res [of "''~/conf/../lib''"] unfolding e1 cwd n1 .
  have 2: "as_filename ex_env RootView (VStr ''~bob//z/./'') = Inr (VStr ''/home/bob/z'')"
    using res [of "''~bob//z/./''"] unfolding e2 cwd n2 .
  have 3: "as_filename ex_env RootView (VStr ''~carol/x'') = Inr (VStr ''/srv/app/~carol/x'')"
    using res [of "''~carol/x''"] unfolding e3 cwd n3 .
  have p: "\<forall>c\<in>set [''etc'', ''app'']. proper_component c"
    by (simp add: proper_component_def)
  from normal [OF p]
  have 4: "as_filename ex_env RootView (VStr ''/etc/app'') = Inr (VStr ''/etc/app'')"
    by simp
  from h 1 2 3 4 show ?thesis by blast
qed

text \<open>
  Claim C8 as stated fails where the path goes through a symbolic link: with
  \<open>/srv/app/link\<close> a link to \<open>/data\<close> and the working directory \<open>/srv/app\<close>, the
  canonical real path of \<open>link/x\<close> is \<open>/data/x\<close>, and \<open>as_filename\<close> returns
  \<open>/srv/app/link/x\<close>.
\<close>


theorem filename_symlink_counterexample:
  "as_filename ex_env RootView (VStr ''link/x'') = Inr (VStr ''/srv/app/link/x'')
   \<and> spec_realpath [([''srv'', ''app'', ''link''], [''data''])] ex_env ''link/x'' = ''/data/x''
   \<and> as_filename ex_env RootView (VStr ''link/x'')
       \<noteq> Inr (VStr (spec_realpath [([''srv'', ''app'', ''link''], [''data''])] ex_env ''link/x''))"
  by (simp add: as_filename_def spec_realpath_def abspath_def expanduser_def isabs_def
      path_join_def normpath_def ex_env_def Let_def)

end
